theory Spec2Isabelle
  imports Main "HOL-Library.AList" "HOL-Library.Sublist"
begin

section \<open>Python values, object identity and deep copies\<close>

text \<open>
  The values a \<open>Parameter\<close> can hold. Mutable objects (lists, generators) carry the
  identity of the object: two nodes with the same address are the same object, so a
  change made to the object through one reference is seen through every other one.
  Tuples, strings, integers and \<open>None\<close> are immutable and have no identity here.
\<close>

type_synonym addr = nat

datatype pyval =
    PNone
  | PInt int
  | PStr string
  | PGen addr
  | PList addr "pyval list"
  | PTuple "pyval list"

datatype error =
    TypeError
  | ValueError
  | SystemExit
  | RecursionError
  | FileNotFoundError
  | FileExistsError
  | IsADirectoryError
  | PicklingError
  | UnpicklingError
  | IndexError

text \<open>\<open>hasattr(v, '__iter__')\<close>, \<open>isinstance(v, str)\<close>, \<open>hasattr(v, '__len__')\<close>.\<close>

fun hasattr_iter :: "pyval \<Rightarrow> bool" where
  "hasattr_iter PNone = False"
| "hasattr_iter (PInt i) = False"
| "hasattr_iter (PStr s) = True"
| "hasattr_iter (PGen g) = True"
| "hasattr_iter (PList a xs) = True"
| "hasattr_iter (PTuple xs) = True"

fun isinstance_str :: "pyval \<Rightarrow> bool" where
  "isinstance_str (PStr s) = True"
| "isinstance_str v = False"

fun hasattr_len :: "pyval \<Rightarrow> bool" where
  "hasattr_len PNone = False"
| "hasattr_len (PInt i) = False"
| "hasattr_len (PStr s) = True"
| "hasattr_len (PGen g) = False"
| "hasattr_len (PList a xs) = True"
| "hasattr_len (PTuple xs) = True"

text \<open>\<open>len(v)\<close> and the elements \<open>iter(v)\<close> yields, for the values that have them.\<close>

fun py_len :: "pyval \<Rightarrow> nat" where
  "py_len (PList a xs) = length xs"
| "py_len (PTuple xs) = length xs"
| "py_len (PStr s) = length s"
| "py_len v = 0"

fun py_iter :: "pyval \<Rightarrow> pyval list" where
  "py_iter (PList a xs) = xs"
| "py_iter (PTuple xs) = xs"
| "py_iter (PStr s) = map (\<lambda>c. PStr [c]) s"
| "py_iter v = []"

text \<open>
  \<open>copy.deepcopy\<close>. The state is the memo of the call (old identity to new identity)
  and the next unused address. A list met for the first time gets a new identity; a
  list already in the memo keeps the identity its first copy got; immutable atoms are
  returned as they are; a generator cannot be copied (\<open>TypeError: cannot pickle
  'generator' object\<close>).
\<close>

type_synonym memo = "(addr \<times> addr) list"

fun deepcopy :: "pyval \<Rightarrow> memo \<times> addr \<Rightarrow> error + (pyval \<times> (memo \<times> addr))"
  and deepcopy_seq :: "pyval list \<Rightarrow> memo \<times> addr \<Rightarrow> error + (pyval list \<times> (memo \<times> addr))"
where
  "deepcopy PNone s = Inr (PNone, s)"
| "deepcopy (PInt i) s = Inr (PInt i, s)"
| "deepcopy (PStr t) s = Inr (PStr t, s)"
| "deepcopy (PGen g) s = Inl TypeError"
| "deepcopy (PList a xs) (m, n) =
     (case map_of m a of
        Some b \<Rightarrow>
          (case deepcopy_seq xs (m, n) of
             Inl e \<Rightarrow> Inl e
           | Inr (ys, s') \<Rightarrow> Inr (PList b ys, s'))
      | None \<Rightarrow>
          (case deepcopy_seq xs ((a, n) # m, Suc n) of
             Inl e \<Rightarrow> Inl e
           | Inr (ys, s') \<Rightarrow> Inr (PList n ys, s')))"
| "deepcopy (PTuple xs) s =
     (case deepcopy_seq xs s of
        Inl e \<Rightarrow> Inl e
      | Inr (ys, s') \<Rightarrow> Inr (PTuple ys, s'))"
| "deepcopy_seq [] s = Inr ([], s)"
| "deepcopy_seq (x # xs) s =
     (case deepcopy x s of
        Inl e \<Rightarrow> Inl e
      | Inr (y, s') \<Rightarrow>
          (case deepcopy_seq xs s' of
             Inl e \<Rightarrow> Inl e
           | Inr (ys, s'') \<Rightarrow> Inr (y # ys, s'')))"

text \<open>
  A dictionary object: its identity and its items in insertion order. \<open>d[k] = v\<close>
  replaces the value of a key that is present and appends a key that is not.
\<close>

record pydict =
  ident :: addr
  items :: "(string \<times> pyval) list"

definition setitem :: "pydict \<Rightarrow> string \<Rightarrow> pyval \<Rightarrow> pydict" where
  "setitem d k v = d\<lparr>items := AList.update k v (items d)\<rparr>"

definition getitem :: "pydict \<Rightarrow> string \<Rightarrow> pyval option" where
  "getitem d k = map_of (items d) k"

text \<open>\<open>deepcopy(d)\<close> of a dictionary: a new dictionary object, the keys (strings) as
  they are, the values copied in order under one memo.\<close>

definition deepcopy_dict :: "pydict \<Rightarrow> addr \<Rightarrow> error + (pydict \<times> addr)" where
  "deepcopy_dict d n =
     (case deepcopy_seq (map snd (items d)) ([(ident d, n)], Suc n) of
        Inl e \<Rightarrow> Inl e
      | Inr (vs, (m, n')) \<Rightarrow> Inr (\<lparr>ident = n, items = zip (map fst (items d)) vs\<rparr>, n'))"

section \<open>Parameter and expand_parameters\<close>

record parameter =
  par_name :: string
  par_value :: pyval
  par_expandable :: bool

text \<open>\<open>[deepcopy(d) for _ in range(k)]\<close> for one \<open>d\<close>, then for every \<open>d\<close> of the list.\<close>

fun copies :: "pydict \<Rightarrow> nat \<Rightarrow> addr \<Rightarrow> error + (pydict list \<times> addr)" where
  "copies d 0 n = Inr ([], n)"
| "copies d (Suc k) n =
     (case deepcopy_dict d n of
        Inl e \<Rightarrow> Inl e
      | Inr (c, n') \<Rightarrow>
          (case copies d k n' of
             Inl e \<Rightarrow> Inl e
           | Inr (cs, n'') \<Rightarrow> Inr (c # cs, n'')))"

fun replicate_dicts :: "pydict list \<Rightarrow> nat \<Rightarrow> addr \<Rightarrow> error + (pydict list \<times> addr)" where
  "replicate_dicts [] k n = Inr ([], n)"
| "replicate_dicts (d # ds) k n =
     (case copies d k n of
        Inl e \<Rightarrow> Inl e
      | Inr (cs, n') \<Rightarrow>
          (case replicate_dicts ds k n' of
             Inl e \<Rightarrow> Inl e
           | Inr (rest, n'') \<Rightarrow> Inr (cs @ rest, n'')))"

text \<open>\<open>zip(dicts, itertools.cycle(values))\<close>: the second argument is what is left of
  the current pass over the values, the third the saved values the cycle replays.\<close>

fun zip_cycle :: "'a list \<Rightarrow> 'b list \<Rightarrow> 'b list \<Rightarrow> ('a \<times> 'b) list" where
  "zip_cycle [] rest full = []"
| "zip_cycle (d # ds) (v # rest) full = (d, v) # zip_cycle ds rest full"
| "zip_cycle (d # ds) [] full =
     (case full of
        [] \<Rightarrow> []
      | v # rest \<Rightarrow> (d, v) # zip_cycle ds rest full)"

text \<open>One pass of the loop body over a Parameter; the state is the list \<open>dicts\<close> and
  the next unused address.\<close>

definition expand_step :: "parameter \<Rightarrow> pydict list \<times> addr \<Rightarrow> error + (pydict list \<times> addr)" where
  "expand_step par s =
     (case s of (dicts, n) \<Rightarrow>
        if par_expandable par \<and> hasattr_iter (par_value par)
           \<and> \<not> isinstance_str (par_value par) \<and> hasattr_len (par_value par)
        then
          (case replicate_dicts dicts (py_len (par_value par)) n of
             Inl e \<Rightarrow> Inl e
           | Inr (dicts', n') \<Rightarrow>
               Inr (map (\<lambda>(d, v). setitem d (par_name par) v)
                        (zip_cycle dicts' (py_iter (par_value par)) (py_iter (par_value par))),
                    n'))
        else Inr (map (\<lambda>d. setitem d (par_name par) (par_value par)) dicts, n))"

fun expand_loop :: "parameter list \<Rightarrow> pydict list \<times> addr \<Rightarrow> error + (pydict list \<times> addr)" where
  "expand_loop [] s = Inr s"
| "expand_loop (par # pars) s =
     (case expand_step par s of
        Inl e \<Rightarrow> Inl e
      | Inr s' \<Rightarrow> expand_loop pars s')"

definition expand_parameters :: "parameter list \<Rightarrow> addr \<Rightarrow> error + (pydict list \<times> addr)" where
  "expand_parameters parameters n = expand_loop parameters ([\<lparr>ident = n, items = []\<rparr>], Suc n)"

section \<open>Console and filesystem\<close>

text \<open>
  A path is the list of its components; \<open>Path(d) / 'x'\<close> is \<open>d @ [''x'']\<close>. The
  filesystem is the set of directories and the contents of the files. The world a
  script runs in is the lines still to be read from standard input, the chunks written
  to standard output so far, and the filesystem. Log records are not part of it.
\<close>

type_synonym path = "string list"

record filesystem =
  dirs :: "path set"
  files :: "path \<rightharpoonup> string"

record world =
  stdin :: "string list"
  stdout :: "string list"
  fs :: filesystem

definition print :: "string \<Rightarrow> world \<Rightarrow> world" where
  "print s w = w\<lparr>stdout := stdout w @ [s]\<rparr>"

text \<open>Opening a file for writing creates it empty or truncates it; the directory it
  is in must exist. Opening for reading needs the file.\<close>

definition open_write :: "path \<Rightarrow> filesystem \<Rightarrow> error + filesystem" where
  "open_write p f =
     (if p \<in> dirs f then Inl IsADirectoryError
      else if butlast p \<notin> dirs f then Inl FileNotFoundError
      else Inr (f\<lparr>files := (files f)(p \<mapsto> [])\<rparr>))"

definition write_data :: "path \<Rightarrow> string \<Rightarrow> filesystem \<Rightarrow> filesystem" where
  "write_data p data f = f\<lparr>files := (files f)(p \<mapsto> data)\<rparr>"


text \<open>\<open>Path.mkdir(parents = True, exist_ok = True)\<close> and
  \<open>shutil.rmtree(p, ignore_errors = True)\<close>.\<close>

definition mkdir_parents :: "path \<Rightarrow> filesystem \<Rightarrow> error + filesystem" where
  "mkdir_parents p f =
     (if \<exists>q \<in> set (prefixes p). files f q \<noteq> None then Inl FileExistsError
      else Inr (f\<lparr>dirs := dirs f \<union> set (prefixes p)\<rparr>))"

definition rmtree :: "path \<Rightarrow> filesystem \<Rightarrow> filesystem" where
  "rmtree p f =
     (if p \<in> dirs f
      then f\<lparr>dirs := {q \<in> dirs f. \<not> prefix p q},
             files := (\<lambda>q. if prefix p q then None else files f q)\<rparr>
      else f)"

text \<open>Running one step after another; an exception ends the run.\<close>

definition and_then ::
  "(world \<Rightarrow> error option \<times> world) \<Rightarrow> (world \<Rightarrow> error option \<times> world) \<Rightarrow> world \<Rightarrow> error option \<times> world"
where
  "and_then step1 step2 w =
     (case step1 w of
        (Some e, w') \<Rightarrow> (Some e, w')
      | (None, w') \<Rightarrow> step2 w')"

text \<open>\<open>str(n)\<close> for integers, \<open>s.lower()\<close> on ASCII letters, \<open>s.replace(' ', '')\<close>.\<close>

definition digit_char :: "nat \<Rightarrow> char" where
  "digit_char n = char_of (48 + n)"

function str_nat :: "nat \<Rightarrow> string" where
  "str_nat n = (if n < 10 then [digit_char n] else str_nat (n div 10) @ [digit_char (n mod 10)])"
  by pat_completeness auto
termination
  by (relation "measure id") auto

declare str_nat.simps [simp del]

definition str_int :: "int \<Rightarrow> string" where
  "str_int i = (if i < 0 then CHR ''-'' # str_nat (nat (- i)) else str_nat (nat i))"

definition lower_char :: "char \<Rightarrow> char" where
  "lower_char c =
     (if 65 \<le> (of_char c :: nat) \<and> (of_char c :: nat) \<le> 90
      then char_of ((of_char c :: nat) + 32) else c)"

definition lower :: "string \<Rightarrow> string" where
  "lower s = map lower_char s"

definition remove_spaces :: "string \<Rightarrow> string" where
  "remove_spaces s = filter (\<lambda>c. c \<noteq> CHR '' '') s"

section \<open>Asking the user\<close>

text \<open>The \<open>default\<close> of \<open>ask_for_bool\<close> is a string or a boolean.\<close>

datatype default = DStr string | DBool bool

fun str_default :: "default \<Rightarrow> string" where
  "str_default (DStr s) = s"
| "str_default (DBool b) = (if b then ''True'' else ''False'')"

text \<open>\<open>trimmed in ('true', 't', 'yes', 'y', '1', 'on', True)\<close> and
  \<open>trimmed in ('false', 'f', 'no', 'n', '0', 'off', False)\<close>.\<close>

fun in_true_synonyms :: "default \<Rightarrow> bool" where
  "in_true_synonyms (DStr s) = (s \<in> set [''true'', ''t'', ''yes'', ''y'', ''1'', ''on''])"
| "in_true_synonyms (DBool b) = b"

fun in_false_synonyms :: "default \<Rightarrow> bool" where
  "in_false_synonyms (DStr s) = (s \<in> set [''false'', ''f'', ''no'', ''n'', ''0'', ''off''])"
| "in_false_synonyms (DBool b) = (\<not> b)"

text \<open>
  \<open>ask_for_bool\<close> over the lines of standard input: the answer, the lines left and
  what was written. Each call writes the prompt and reads one line; an answer that is
  neither a synonym of true nor of false raises \<open>ValueError\<close>, which is printed, and
  the question is asked again. At the end of input \<open>input\<close> raises \<open>EOFError\<close> in
  every retry, and the recursion ends in \<open>RecursionError\<close>.
\<close>

fun ask_for_bool_lines ::
  "string \<Rightarrow> default \<Rightarrow> string list \<Rightarrow> (error + bool) \<times> string list \<times> string list"
where
  "ask_for_bool_lines question dflt [] =
     (Inl RecursionError, [], [question @ '' [Default: '' @ str_default dflt @ ''] > ''])"
| "ask_for_bool_lines question dflt (input_str # rest) =
     (let trimmed = (if lower (remove_spaces input_str) = []
                     then dflt else DStr (lower (remove_spaces input_str)))
      in if in_true_synonyms trimmed
         then (Inr True, rest, [question @ '' [Default: '' @ str_default dflt @ ''] > ''])
         else if in_false_synonyms trimmed
         then (Inr False, rest, [question @ '' [Default: '' @ str_default dflt @ ''] > ''])
         else (case ask_for_bool_lines question dflt rest of
                 (r, rest', out) \<Rightarrow>
                   (r, rest',
                    [question @ '' [Default: '' @ str_default dflt @ ''] > '',
                     ''Invalid answer to question '' @ [CHR 0x22] @ question @ [CHR 0x22]] @ out)))"

definition ask_for_bool :: "string \<Rightarrow> default \<Rightarrow> world \<Rightarrow> (error + bool) \<times> world" where
  "ask_for_bool question dflt w =
     (case ask_for_bool_lines question dflt (stdin w) of
        (r, rest, out) \<Rightarrow> (r, w\<lparr>stdin := rest, stdout := stdout w @ out\<rparr>))"

definition abort_job_creation :: "world \<Rightarrow> error option \<times> world" where
  "abort_job_creation w = (Some SystemExit, print ''Aborting job creation...'' w)"

section \<open>Job creation\<close>

text \<open>\<open>specifications[0:check]\<close>: a negative bound counts from the end.\<close>

definition slice_to :: "'a list \<Rightarrow> int \<Rightarrow> 'a list" where
  "slice_to xs c = (if c < 0 then take (nat (int (length xs) + c)) xs else take (nat c) xs)"

text \<open>
  \<open>Specification\<close> is not defined in these sources: its \<open>info()\<close> text and its
  \<open>save(target_dir)\<close> are arguments of the functions that call them.
\<close>

fun print_sample :: "('spec \<Rightarrow> string) \<Rightarrow> 'spec list \<Rightarrow> world \<Rightarrow> world" where
  "print_sample info [] w = w"
| "print_sample info (s # ss) w =
     print_sample info ss
       (print (replicate 20 CHR ''-'') (print ([CHR 0x0A] @ info s @ [CHR 0x0A]) w))"

definition specification_check ::
  "('spec \<Rightarrow> string) \<Rightarrow> 'spec list \<Rightarrow> int \<Rightarrow> world \<Rightarrow> error option \<times> world"
where
  "specification_check info specifications check w =
     (let w1 = print (replicate 20 CHR ''-'') w;
          w2 = print_sample info (slice_to specifications check) w1;
          w3 = print (''Generated '' @ str_nat (length specifications) @ '' Specifications'') w2
      in case ask_for_bool (''Do the first '' @ str_int check @ '' Specifications look correct?'')
                (DStr ''No'') w3 of
           (Inl e, w4) \<Rightarrow> (Some e, w4)
         | (Inr answer, w4) \<Rightarrow> (if \<not> answer then abort_job_creation w4 else (None, w4)))"

fun mkdir_each :: "path \<Rightarrow> string list \<Rightarrow> filesystem \<Rightarrow> error + filesystem" where
  "mkdir_each job_dir [] f = Inr f"
| "mkdir_each job_dir (subdir # subdirs) f =
     (case mkdir_parents (job_dir @ [subdir]) f of
        Inl e \<Rightarrow> Inl e
      | Inr f' \<Rightarrow> mkdir_each job_dir subdirs f')"

definition create_job_subdirs :: "path \<Rightarrow> string list \<Rightarrow> world \<Rightarrow> error option \<times> world" where
  "create_job_subdirs job_dir subdirs w =
     (let w1 = print ''Creating job directory and subdirectories...'' w
      in case mkdir_parents job_dir (fs w1) of
           Inl e \<Rightarrow> (Some e, w1)
         | Inr f \<Rightarrow>
             (case mkdir_each job_dir subdirs f of
                Inl e \<Rightarrow> (Some e, w1\<lparr>fs := f\<rparr>)
              | Inr f' \<Rightarrow> (None, w1\<lparr>fs := f'\<rparr>)))"

fun save_each ::
  "('spec \<Rightarrow> path \<Rightarrow> filesystem \<Rightarrow> error option \<times> filesystem) \<Rightarrow> 'spec list \<Rightarrow> path
     \<Rightarrow> filesystem \<Rightarrow> error option \<times> filesystem"
where
  "save_each save [] job_dir f = (None, f)"
| "save_each save (spec # specs) job_dir f =
     (case save spec (job_dir @ [''inputs'']) f of
        (Some e, f') \<Rightarrow> (Some e, f')
      | (None, f') \<Rightarrow> save_each save specs job_dir f')"

definition save_specifications ::
  "('spec \<Rightarrow> path \<Rightarrow> filesystem \<Rightarrow> error option \<times> filesystem) \<Rightarrow> 'spec list \<Rightarrow> path
     \<Rightarrow> world \<Rightarrow> error option \<times> world"
where
  "save_specifications save specifications job_dir w =
     (let w1 = print ''Saving Specifications...'' w
      in case save_each save specifications job_dir (fs w1) of
           (r, f) \<Rightarrow> (r, w1\<lparr>fs := f\<rparr>))"

text \<open>\<open>'\n'.join(lines)\<close>.\<close>

fun join_lines :: "string list \<Rightarrow> string" where
  "join_lines [] = []"
| "join_lines [l] = l"
| "join_lines (l # ls) = l @ [CHR 0x0A] @ join_lines ls"

definition write_text :: "path \<Rightarrow> string \<Rightarrow> world \<Rightarrow> error option \<times> world" where
  "write_text p text w =
     (case open_write p (fs w) of
        Inl e \<Rightarrow> (Some e, w)
      | Inr f \<Rightarrow> (None, w\<lparr>fs := write_data p text f\<rparr>))"

definition write_specifications_info_to_file ::
  "('spec \<Rightarrow> string) \<Rightarrow> 'spec list \<Rightarrow> path \<Rightarrow> world \<Rightarrow> error option \<times> world"
where
  "write_specifications_info_to_file info specifications job_dir w =
     write_text (job_dir @ [''specifications.txt'']) (join_lines (map info specifications))
       (print ''Writing Specification info to file...'' w)"

text \<open>\<open>repr(param)\<close> goes through \<open>textwrap\<close> and the \<open>repr\<close> of the values; it is
  an argument here.\<close>

definition write_parameters_info_to_file ::
  "(parameter \<Rightarrow> string) \<Rightarrow> parameter list \<Rightarrow> path \<Rightarrow> world \<Rightarrow> error option \<times> world"
where
  "write_parameters_info_to_file repr parameters job_dir w =
     write_text (job_dir @ [''parameters.txt'']) (join_lines (map repr parameters))
       (print ''Writing parameters to file...'' w)"

text \<open>\<open>pickle.dump\<close> and \<open>pickle.load\<close> are arguments: \<open>dumps\<close> gives the bytes of an
  object or raises, \<open>loads\<close> reads an object back or raises.\<close>

definition write_job_info_to_file ::
  "('info \<Rightarrow> error + string) \<Rightarrow> 'info \<Rightarrow> path \<Rightarrow> filesystem \<Rightarrow> error option \<times> filesystem"
where
  "write_job_info_to_file dumps job_info job_dir f =
     (case open_write (job_dir @ [''info.pkl'']) f of
        Inl e \<Rightarrow> (Some e, f)
      | Inr f' \<Rightarrow>
          (case dumps job_info of
             Inl e \<Rightarrow> (Some e, f')
           | Inr data \<Rightarrow> (None, write_data (job_dir @ [''info.pkl'']) data f')))"



text \<open>
  The script \<open>create_job_test.py\<close> from \<open>specification_check\<close> to the end (lines
  134 to 156). \<open>submit_check\<close> and \<open>write_submit_file\<close> are not in these sources and
  are arguments; the directories are made by \<open>create_job_subdirs\<close>; \<open>job_info\<close> reads
  \<open>specs[0]\<close>, which raises \<open>IndexError\<close> on an empty list.
\<close>

definition create_job ::
  "('spec \<Rightarrow> string) \<Rightarrow> ('spec \<Rightarrow> path \<Rightarrow> filesystem \<Rightarrow> error option \<times> filesystem)
     \<Rightarrow> (parameter \<Rightarrow> string) \<Rightarrow> ('info \<Rightarrow> error + string)
     \<Rightarrow> (world \<Rightarrow> error option \<times> world) \<Rightarrow> (path \<Rightarrow> world \<Rightarrow> error option \<times> world)
     \<Rightarrow> ('spec list \<Rightarrow> 'info) \<Rightarrow> 'spec list \<Rightarrow> parameter list \<Rightarrow> path
     \<Rightarrow> world \<Rightarrow> error option \<times> world"
where
  "create_job info save repr dumps submit_check write_submit_file job_info specs parameters job_dir =
     and_then (specification_check info specs 3)
    (and_then submit_check
    (and_then (\<lambda>w. (None, w\<lparr>fs := rmtree job_dir (fs w)\<rparr>))
    (and_then (create_job_subdirs job_dir [''inputs'', ''outputs'', ''logs''])
    (and_then (save_specifications save specs job_dir)
    (and_then (write_specifications_info_to_file info specs job_dir)
    (and_then (write_parameters_info_to_file repr parameters job_dir)
    (and_then (\<lambda>w. if specs = [] then (Some IndexError, w)
                    else (case write_job_info_to_file dumps (job_info specs) job_dir (fs w) of
                            (r, f) \<Rightarrow> (r, w\<lparr>fs := f\<rparr>)))
       (write_submit_file job_dir))))))))"

section \<open>Obtaining the job processor\<close>



section \<open>Notions used to state the properties\<close>

text \<open>The test that sends a Parameter to the expanding branch, and the number of
  maps the claim expects: the product of the lengths of the expanding sequences.\<close>

definition expands :: "parameter \<Rightarrow> bool" where
  "expands par \<longleftrightarrow> par_expandable par \<and> hasattr_iter (par_value par)
     \<and> \<not> isinstance_str (par_value par) \<and> hasattr_len (par_value par)"

definition expected_count :: "parameter list \<Rightarrow> nat" where
  "expected_count pars = prod_list (map (\<lambda>par. py_len (par_value par)) (filter expands pars))"

text \<open>The values one Parameter can put into a map.\<close>

definition candidates :: "parameter \<Rightarrow> pyval set" where
  "candidates par = (if expands par then set (py_iter (par_value par)) else {par_value par})"

text \<open>A value that holds no generator can be deep-copied.\<close>

fun copyable :: "pyval \<Rightarrow> bool" where
  "copyable (PGen g) = False"
| "copyable (PList a xs) = (\<forall>x \<in> set xs. copyable x)"
| "copyable (PTuple xs) = (\<forall>x \<in> set xs. copyable x)"
| "copyable v = True"

definition dict_copyable :: "pydict \<Rightarrow> bool" where
  "dict_copyable d \<longleftrightarrow> (\<forall>v \<in> set (map snd (items d)). copyable v)"

text \<open>A value without the identities of its lists: two values are equal as Python's
  \<open>==\<close> sees them when they are the same after \<open>strip\<close>. \<open>content d k\<close> is what the
  map \<open>d\<close> binds \<open>k\<close> to, up to identity.\<close>

fun strip :: "pyval \<Rightarrow> pyval" where
  "strip (PList a xs) = PList 0 (map strip xs)"
| "strip (PTuple xs) = PTuple (map strip xs)"
| "strip v = v"

definition strip_items :: "pydict \<Rightarrow> (string \<times> pyval) list" where
  "strip_items d = map (\<lambda>(k, v). (k, strip v)) (items d)"

definition content :: "pydict \<Rightarrow> string \<Rightarrow> pyval option" where
  "content d k = map_option strip (getitem d k)"





text \<open>The list a call returned (empty when it raised), and the values the maps of a
  list bind one name to, in order.\<close>

definition returned :: "error + (pydict list \<times> addr) \<Rightarrow> pydict list" where
  "returned r = (case r of Inl e \<Rightarrow> [] | Inr (ds, n) \<Rightarrow> ds)"

definition column :: "string \<Rightarrow> pydict list \<Rightarrow> pyval option list" where
  "column k ds = map (\<lambda>d. getitem d k) ds"


section \<open>Concrete inputs\<close>

text \<open>
  Parameter lists the scenarios below run on. The lists held by the Parameters have
  the addresses 0 and 1, so every call starts with a next unused address above them.
\<close>

definition c2_parameters :: "parameter list" where
  "c2_parameters =
     [\<lparr>par_name = ''a'', par_value = PList 0 [PInt 1, PInt 2], par_expandable = True\<rparr>,
      \<lparr>par_name = ''c'', par_value = PList 1 [PInt 10, PInt 20, PInt 30], par_expandable = True\<rparr>]"



definition duplicate_parameters :: "parameter list" where
  "duplicate_parameters =
     [\<lparr>par_name = ''a'', par_value = PInt 1, par_expandable = False\<rparr>,
      \<lparr>par_name = ''a'', par_value = PList 0 [PInt 5, PInt 6], par_expandable = True\<rparr>,
      \<lparr>par_name = ''b'', par_value = PStr ''x'', par_expandable = False\<rparr>]"

definition fixed_parameters :: "parameter list" where
  "fixed_parameters =
     [\<lparr>par_name = ''b'', par_value = PStr ''x'', par_expandable = False\<rparr>,
      \<lparr>par_name = ''phase'', par_value = PStr ''cos'', par_expandable = True\<rparr>,
      \<lparr>par_name = ''n'', par_value = PInt 3, par_expandable = True\<rparr>,
      \<lparr>par_name = ''l'', par_value = PList 0 [PInt 7], par_expandable = False\<rparr>]"


definition empty_sequence_parameters :: "parameter list" where
  "empty_sequence_parameters =
     [\<lparr>par_name = ''a'', par_value = PList 0 [PInt 1, PInt 2], par_expandable = True\<rparr>,
      \<lparr>par_name = ''e'', par_value = PList 1 [], par_expandable = True\<rparr>]"

text \<open>
  Modelled from the spec: \<open>Specification.save(target_dir)\<close>, which is not in these
  sources. It writes the serialized Specification to a file named after it in the
  target directory, and raises when the Specification does not serialize. \<open>info()\<close>
  is a one-line description.
\<close>

record demo_spec =
  spec_file_name :: string
  spec_picklable :: bool

definition demo_save :: "demo_spec \<Rightarrow> path \<Rightarrow> filesystem \<Rightarrow> error option \<times> filesystem" where
  "demo_save spec target_dir f =
     (if spec_picklable spec
      then (case open_write (target_dir @ [spec_file_name spec @ ''.spec'']) f of
              Inl e \<Rightarrow> (Some e, f)
            | Inr f' \<Rightarrow> (None, write_data (target_dir @ [spec_file_name spec @ ''.spec'']) ''spec'' f'))
      else (Some PicklingError, f))"

definition demo_info :: "demo_spec \<Rightarrow> string" where
  "demo_info spec = ''Specification '' @ spec_file_name spec"

definition five_specifications :: "demo_spec list" where
  "five_specifications =
     [\<lparr>spec_file_name = ''0'', spec_picklable = True\<rparr>,
      \<lparr>spec_file_name = ''1'', spec_picklable = True\<rparr>,
      \<lparr>spec_file_name = ''2'', spec_picklable = False\<rparr>,
      \<lparr>spec_file_name = ''3'', spec_picklable = True\<rparr>,
      \<lparr>spec_file_name = ''4'', spec_picklable = True\<rparr>]"

definition two_specifications :: "demo_spec list" where
  "two_specifications =
     [\<lparr>spec_file_name = ''0'', spec_picklable = True\<rparr>,
      \<lparr>spec_file_name = ''1'', spec_picklable = True\<rparr>]"

text \<open>
  A world with the job directory in place, an old file in it, and the given answers
  waiting on standard input; and the script run in it with a \<open>submit_check\<close> that
  accepts and a \<open>write_submit_file\<close> that writes nothing.
\<close>

definition job_world :: "string list \<Rightarrow> world" where
  "job_world answers =
     \<lparr>stdin = answers, stdout = [],
      fs = \<lparr>dirs = {[], [''job''], [''job'', ''inputs'']},
            files = [[''job'', ''old.txt''] \<mapsto> ''old'']\<rparr>\<rparr>"

definition demo_create_job :: "demo_spec list \<Rightarrow> world \<Rightarrow> error option \<times> world" where
  "demo_create_job specs =
     create_job demo_info demo_save par_name (\<lambda>n. Inr (str_nat n)) (\<lambda>w. (None, w))
       (\<lambda>job_dir w. (None, w)) length specs c2_parameters [''job'']"

text \<open>
  The job metadata of \<open>create_job_test.py\<close>, a serialization that round-trips it,
  and a persisted job processor that deserializes only from the bytes it was saved as.
\<close>

record job_info =
  info_name :: string
  job_processor_type :: string
  number_of_sims :: nat
  specification_type :: string
  external_potential_type :: string







section \<open>Lemmas about the expansion\<close>

lemma length_zip_cycle: "full \<noteq> [] \<Longrightarrow> length (zip_cycle ds rest full) = length ds"
  by (induction ds rest full rule: zip_cycle.induct) (auto split: list.splits)

lemma map_fst_zip_cycle: "full \<noteq> [] \<Longrightarrow> map fst (zip_cycle ds rest full) = ds"
  by (induction ds rest full rule: zip_cycle.induct) (auto split: list.splits)

lemma snd_zip_cycle: "(d, v) \<in> set (zip_cycle ds rest full) \<Longrightarrow> v \<in> set rest \<union> set full"
  by (induction ds rest full rule: zip_cycle.induct) (auto split: list.splits)

lemma length_copies: "copies d k n = Inr (cs, n') \<Longrightarrow> length cs = k"
  by (induction k arbitrary: n cs n') (auto split: sum.splits)

lemma length_replicate_dicts:
  "replicate_dicts ds k n = Inr (r, n') \<Longrightarrow> length r = length ds * k"
  by (induction ds arbitrary: n r n') (auto split: sum.splits simp: length_copies)

lemma expands_seq: "expands par \<Longrightarrow> py_len (par_value par) = length (py_iter (par_value par))"
  by (cases "par_value par") (auto simp: expands_def)

lemma length_expand_step:
  assumes "expand_step par (ds, n) = Inr (ds', n')"
  shows "length ds' = length ds * (if expands par then py_len (par_value par) else 1)"
proof (cases "expands par")
  case False
  with assms show ?thesis by (auto simp: expand_step_def expands_def)
next
  case True
  then obtain r where r: "replicate_dicts ds (py_len (par_value par)) n = Inr (r, n')"
    and ds': "ds' = map (\<lambda>(d, v). setitem d (par_name par) v)
                        (zip_cycle r (py_iter (par_value par)) (py_iter (par_value par)))"
    using assms by (auto simp: expand_step_def expands_def split: sum.splits)
  have lr: "length r = length ds * py_len (par_value par)"
    using r by (rule length_replicate_dicts)
  show ?thesis
  proof (cases "py_iter (par_value par) = []")
    case True
    with lr expands_seq[OF \<open>expands par\<close>] have "r = []" by simp
    with ds' lr \<open>expands par\<close> show ?thesis by simp
  next
    case False
    with ds' lr \<open>expands par\<close> show ?thesis by (simp add: length_zip_cycle)
  qed
qed

lemma length_expand_loop:
  "expand_loop pars (ds, n) = Inr (ds', n') \<Longrightarrow> length ds' = length ds * expected_count pars"
proof (induction pars arbitrary: ds n)
  case Nil
  then show ?case by (simp add: expected_count_def)
next
  case (Cons par pars)
  from Cons.prems obtain ds1 n1 where s: "expand_step par (ds, n) = Inr (ds1, n1)"
    and l: "expand_loop pars (ds1, n1) = Inr (ds', n')"
    by (auto split: sum.splits)
  from Cons.IH[OF l] length_expand_step[OF s] show ?case
    by (simp add: expected_count_def)
qed

lemma deepcopy_succeeds:
  "copyable v \<Longrightarrow> \<exists>v' s'. deepcopy v s = Inr (v', s') \<and> copyable v'"
  "(\<forall>x \<in> set xs. copyable x) \<Longrightarrow>
     \<exists>ys s'. deepcopy_seq xs s = Inr (ys, s') \<and> (\<forall>y \<in> set ys. copyable y)"
proof (induction v s and xs s rule: deepcopy_deepcopy_seq.induct)
  case (5 a xs m n)
  then show ?case by (cases "map_of m a") fastforce+
next
  case (6 xs s)
  then show ?case by fastforce
next
  case (8 x xs s)
  from "8.prems" have cx: "copyable x" and cxs: "\<forall>x \<in> set xs. copyable x" by auto
  from "8.IH"(1)[OF cx] obtain y s1 where y: "deepcopy x s = Inr (y, s1)" "copyable y" by blast
  from "8.IH"(2)[OF y(1) refl cxs] obtain ys s2
    where ys: "deepcopy_seq xs s1 = Inr (ys, s2)" "\<forall>y \<in> set ys. copyable y" by blast
  from y ys show ?case by simp
qed auto

lemma deepcopy_strip:
  "deepcopy v s = Inr (v', s') \<Longrightarrow> strip v' = strip v"
  "deepcopy_seq xs s = Inr (ys, s') \<Longrightarrow> map strip ys = map strip xs"
  by (induction v s and xs s arbitrary: v' s' and ys s' rule: deepcopy_deepcopy_seq.induct)
     (auto split: sum.splits option.splits)

lemma deepcopy_mono:
  "deepcopy v s = Inr (v', s') \<Longrightarrow> snd s \<le> snd s'"
  "deepcopy_seq xs s = Inr (ys, s') \<Longrightarrow> snd s \<le> snd s'"
  by (induction v s and xs s arbitrary: v' s' and ys s' rule: deepcopy_deepcopy_seq.induct)
     (fastforce split: sum.splits option.splits)+

lemma deepcopy_seq_length: "deepcopy_seq xs s = Inr (ys, s') \<Longrightarrow> length ys = length xs"
  using deepcopy_strip(2)[of xs s ys s'] by (metis length_map)

lemma strip_items_zip:
  assumes "map strip vs = map strip (map snd al)"
  shows "map (\<lambda>(k, v). (k, strip v)) (zip (map fst al) vs) = map (\<lambda>(k, v). (k, strip v)) al"
proof -
  have "length vs = length al" using assms by (metis length_map)
  then show ?thesis using assms
    by (induction vs al rule: list_induct2) auto
qed

lemma deepcopy_dict_Inr:
  assumes "deepcopy_dict d n = Inr (c, n')"
  shows "ident c = n" and "n < n'" and "strip_items c = strip_items d"
proof -
  from assms obtain vs m where
    seq: "deepcopy_seq (map snd (items d)) ([(ident d, n)], Suc n) = Inr (vs, (m, n'))"
    and c: "c = \<lparr>ident = n, items = zip (map fst (items d)) vs\<rparr>"
    by (auto simp: deepcopy_dict_def split: sum.splits)
  from c show "ident c = n" by simp
  from deepcopy_mono(2)[OF seq] show "n < n'" by simp
  from deepcopy_strip(2)[OF seq] c show "strip_items c = strip_items d"
    by (simp add: strip_items_def strip_items_zip)
qed

lemma content_conv: "content d k = map_of (strip_items d) k"
  by (simp add: content_def getitem_def strip_items_def map_of_map)

lemma content_strip_items: "strip_items c = strip_items d \<Longrightarrow> content c k = content d k"
  by (simp add: content_conv)

lemma content_setitem:
  "content (setitem d k v) k' = (if k' = k then Some (strip v) else content d k')"
  by (simp add: content_def getitem_def setitem_def update_conv')


lemma copies_Inr:
  "copies d k n = Inr (cs, n') \<Longrightarrow>
     n \<le> n' \<and> (\<forall>c \<in> set cs. strip_items c = strip_items d \<and> n \<le> ident c \<and> ident c < n')
     \<and> sorted_wrt (<) (map ident cs)"
proof (induction k arbitrary: n cs)
  case 0
  then show ?case by simp
next
  case (Suc k)
  from Suc.prems obtain c n1 cs1 where c: "deepcopy_dict d n = Inr (c, n1)"
    and r: "copies d k n1 = Inr (cs1, n')" and cs: "cs = c # cs1"
    by (auto split: sum.splits)
  from deepcopy_dict_Inr[OF c] Suc.IH[OF r] cs show ?case by fastforce
qed

lemma replicate_dicts_Inr:
  "replicate_dicts ds k n = Inr (r, n') \<Longrightarrow>
     n \<le> n' \<and> (\<forall>c \<in> set r. (\<exists>d \<in> set ds. strip_items c = strip_items d) \<and> n \<le> ident c \<and> ident c < n')
     \<and> sorted_wrt (<) (map ident r)"
proof (induction ds arbitrary: n r)
  case Nil
  then show ?case by simp
next
  case (Cons d ds)
  from Cons.prems obtain cs n1 rest where c: "copies d k n = Inr (cs, n1)"
    and r: "replicate_dicts ds k n1 = Inr (rest, n')" and rr: "r = cs @ rest"
    by (auto split: sum.splits)
  from copies_Inr[OF c] Cons.IH[OF r] rr show ?case
    by (fastforce simp: sorted_wrt_append)
qed

lemma expand_loop_append:
  "expand_loop (xs @ ys) s = (case expand_loop xs s of Inl e \<Rightarrow> Inl e | Inr s' \<Rightarrow> expand_loop ys s')"
  by (induction xs arbitrary: s) (auto split: sum.splits)

lemma expand_step_cases:
  assumes "expand_step par (ds, n) = Inr (ds', n')"
  obtains (broadcast) "\<not> expands par" "n' = n"
      "ds' = map (\<lambda>d. setitem d (par_name par) (par_value par)) ds"
  | (replicated) r where "expands par"
      "replicate_dicts ds (py_len (par_value par)) n = Inr (r, n')"
      "ds' = map (\<lambda>(d, v). setitem d (par_name par) v)
               (zip_cycle r (py_iter (par_value par)) (py_iter (par_value par)))"
  using assms by (auto simp: expand_step_def expands_def split: sum.splits if_splits)

lemma expand_step_content:
  assumes "expand_step par (ds, n) = Inr (ds', n')" and "d' \<in> set ds'"
  shows "(\<exists>v \<in> candidates par. content d' (par_name par) = Some (strip v))
       \<and> (\<exists>d \<in> set ds. \<forall>k. k \<noteq> par_name par \<longrightarrow> content d' k = content d k)"
  using assms(1)
proof (cases rule: expand_step_cases)
  case broadcast
  with assms(2) show ?thesis by (auto simp: candidates_def content_setitem)
next
  case (replicated r)
  from assms(2) replicated(3) obtain c v
    where cv: "(c, v) \<in> set (zip_cycle r (py_iter (par_value par)) (py_iter (par_value par)))"
      and d': "d' = setitem c (par_name par) v" by auto
  from snd_zip_cycle[OF cv] replicated(1) have v: "v \<in> candidates par"
    by (simp add: candidates_def)
  from cv have ne: "py_iter (par_value par) \<noteq> []" by (cases r) auto
  from cv have "fst (c, v) \<in> fst ` set (zip_cycle r (py_iter (par_value par)) (py_iter (par_value par)))"
    by (rule imageI)
  then have "c \<in> set (map fst (zip_cycle r (py_iter (par_value par)) (py_iter (par_value par))))"
    by simp
  then have "c \<in> set r" by (simp only: map_fst_zip_cycle[OF ne])
  with replicate_dicts_Inr[OF replicated(2)] obtain d where d: "d \<in> set ds"
    and sd: "strip_items c = strip_items d" by blast
  have "\<forall>k. content c k = content d k"
    using content_strip_items[OF sd] by blast
  with v d d' show ?thesis by (auto simp: content_setitem)
qed

lemma expand_loop_keeps:
  "expand_loop pars (ds, n) = Inr (ds', n') \<Longrightarrow> k \<notin> set (map par_name pars) \<Longrightarrow> d' \<in> set ds'
     \<Longrightarrow> \<exists>d \<in> set ds. content d' k = content d k"
proof (induction pars arbitrary: ds n)
  case Nil
  then show ?case by auto
next
  case (Cons par pars)
  from Cons.prems(1) obtain ds1 n1 where s: "expand_step par (ds, n) = Inr (ds1, n1)"
    and l: "expand_loop pars (ds1, n1) = Inr (ds', n')"
    by (auto split: sum.splits)
  from Cons.prems(2) have k: "k \<noteq> par_name par" "k \<notin> set (map par_name pars)" by auto
  from Cons.IH[OF l k(2) Cons.prems(3)] obtain d1 where d1: "d1 \<in> set ds1"
    "content d' k = content d1 k" by blast
  from expand_step_content[OF s d1(1)] k(1) obtain d where "d \<in> set ds" "content d1 k = content d k"
    by blast
  with d1 show ?case by auto
qed

lemma expand_loop_last_write:
  assumes "expand_loop (pars1 @ par # pars2) (ds, n) = Inr (ds', n')"
    and "par_name par \<notin> set (map par_name pars2)" and "d' \<in> set ds'"
  shows "\<exists>v \<in> candidates par. content d' (par_name par) = Some (strip v)"
proof -
  from assms(1) obtain ds1 n1 ds2 n2 where
    "expand_loop pars1 (ds, n) = Inr (ds1, n1)"
    and s: "expand_step par (ds1, n1) = Inr (ds2, n2)"
    and l: "expand_loop pars2 (ds2, n2) = Inr (ds', n')"
    by (auto simp: expand_loop_append split: sum.splits)
  from expand_loop_keeps[OF l assms(2) assms(3)] obtain d2 where d2: "d2 \<in> set ds2"
    "content d' (par_name par) = content d2 (par_name par)" by blast
  from expand_step_content[OF s d2(1)] d2(2) show ?thesis by auto
qed



lemma deepcopy_dict_succeeds:
  assumes "dict_copyable d"
  shows "\<exists>c n'. deepcopy_dict d n = Inr (c, n') \<and> dict_copyable c"
proof -
  from assms have "\<forall>x \<in> set (map snd (items d)). copyable x" by (simp add: dict_copyable_def)
  from deepcopy_succeeds(2)[OF this, of "([(ident d, n)], Suc n)"] obtain vs m n'
    where seq: "deepcopy_seq (map snd (items d)) ([(ident d, n)], Suc n) = Inr (vs, (m, n'))"
      and vs: "\<forall>y \<in> set vs. copyable y" by auto
  have "set (map snd (zip (map fst (items d)) vs)) \<subseteq> set vs"
    by (auto dest: set_zip_rightD)
  with vs have "dict_copyable \<lparr>ident = n, items = zip (map fst (items d)) vs\<rparr>"
    by (auto simp: dict_copyable_def)
  with seq show ?thesis by (simp add: deepcopy_dict_def)
qed

lemma copies_succeeds:
  "dict_copyable d \<Longrightarrow> \<exists>cs n'. copies d k n = Inr (cs, n') \<and> (\<forall>c \<in> set cs. dict_copyable c)"
proof (induction k arbitrary: n)
  case 0
  then show ?case by simp
next
  case (Suc k)
  from deepcopy_dict_succeeds[OF Suc.prems, of n] obtain c n1
    where c: "deepcopy_dict d n = Inr (c, n1)" "dict_copyable c" by blast
  from Suc.IH[OF Suc.prems, of n1] obtain cs n2
    where cs: "copies d k n1 = Inr (cs, n2)" "\<forall>c \<in> set cs. dict_copyable c" by blast
  from c cs show ?case by simp
qed

lemma replicate_dicts_succeeds:
  "\<forall>d \<in> set ds. dict_copyable d \<Longrightarrow>
     \<exists>r n'. replicate_dicts ds k n = Inr (r, n') \<and> (\<forall>c \<in> set r. dict_copyable c)"
proof (induction ds arbitrary: n)
  case Nil
  then show ?case by simp
next
  case (Cons d ds)
  from Cons.prems have d: "dict_copyable d" and ds: "\<forall>d \<in> set ds. dict_copyable d" by auto
  from copies_succeeds[OF d, of k n] obtain cs n1
    where cs: "copies d k n = Inr (cs, n1)" "\<forall>c \<in> set cs. dict_copyable c" by blast
  from Cons.IH[OF ds, of n1] obtain r n2
    where r: "replicate_dicts ds k n1 = Inr (r, n2)" "\<forall>c \<in> set r. dict_copyable c" by blast
  from cs r show ?case by auto
qed

lemma snd_update_cases: "(a, b) \<in> set (AList.update k v al) \<Longrightarrow> b = v \<or> (a, b) \<in> set al"
  by (induction al) (auto split: if_splits)

lemma dict_copyable_setitem:
  "dict_copyable d \<Longrightarrow> copyable v \<Longrightarrow> dict_copyable (setitem d k v)"
  by (auto simp: dict_copyable_def setitem_def dest: snd_update_cases)

lemma copyable_py_iter: "copyable v \<Longrightarrow> x \<in> set (py_iter v) \<Longrightarrow> copyable x"
  by (cases v) auto

lemma expand_step_succeeds:
  assumes "\<forall>d \<in> set ds. dict_copyable d" and "copyable (par_value par)"
  shows "\<exists>ds' n'. expand_step par (ds, n) = Inr (ds', n') \<and> (\<forall>d \<in> set ds'. dict_copyable d)"
proof (cases "expands par")
  case False
  with assms show ?thesis
    by (auto simp: expand_step_def expands_def dict_copyable_setitem)
next
  case True
  from replicate_dicts_succeeds[OF assms(1), of "py_len (par_value par)" n] obtain r n'
    where r: "replicate_dicts ds (py_len (par_value par)) n = Inr (r, n')"
      "\<forall>c \<in> set r. dict_copyable c" by blast
  let ?vs = "py_iter (par_value par)"
  have "\<forall>d \<in> set (map (\<lambda>(d, v). setitem d (par_name par) v) (zip_cycle r ?vs ?vs)). dict_copyable d"
  proof
    fix d assume "d \<in> set (map (\<lambda>(d, v). setitem d (par_name par) v) (zip_cycle r ?vs ?vs))"
    then obtain c v where cv: "(c, v) \<in> set (zip_cycle r ?vs ?vs)"
      and d: "d = setitem c (par_name par) v" by auto
    from cv have ne: "?vs \<noteq> []" by (cases r) auto
    from cv have "fst (c, v) \<in> fst ` set (zip_cycle r ?vs ?vs)" by (rule imageI)
    then have "c \<in> set (map fst (zip_cycle r ?vs ?vs))" by simp
    then have "c \<in> set r" by (simp only: map_fst_zip_cycle[OF ne])
    with r(2) have dc: "dict_copyable c" by blast
    from snd_zip_cycle[OF cv] have "v \<in> set ?vs" by simp
    with assms(2) have "copyable v" by (rule copyable_py_iter[rotated -1, rotated])
    with dc d show "dict_copyable d" by (simp add: dict_copyable_setitem)
  qed
  with r(1) True show ?thesis by (simp add: expand_step_def expands_def)
qed

lemma expand_loop_succeeds:
  "\<forall>d \<in> set ds. dict_copyable d \<Longrightarrow> \<forall>par \<in> set pars. copyable (par_value par)
     \<Longrightarrow> \<exists>ds' n'. expand_loop pars (ds, n) = Inr (ds', n')"
proof (induction pars arbitrary: ds n)
  case Nil
  then show ?case by simp
next
  case (Cons par pars)
  from Cons.prems(2) have p: "copyable (par_value par)"
    and ps: "\<forall>par \<in> set pars. copyable (par_value par)" by auto
  from expand_step_succeeds[OF Cons.prems(1) p, of n] obtain ds1 n1
    where s: "expand_step par (ds, n) = Inr (ds1, n1)" "\<forall>d \<in> set ds1. dict_copyable d" by blast
  from Cons.IH[OF s(2) ps, of n1] s(1) show ?case by simp
qed

lemma expand_step_broadcast:
  "\<not> expands par \<Longrightarrow>
     expand_step par (ds, n) = Inr (map (\<lambda>d. setitem d (par_name par) (par_value par)) ds, n)"
  by (auto simp: expand_step_def expands_def)



lemma expand_loop_no_expansion_returns:
  "\<forall>par \<in> set pars. \<not> expands par \<Longrightarrow> \<exists>ds'. expand_loop pars (ds, n) = Inr (ds', n) \<and> length ds' = length ds"
proof (induction pars arbitrary: ds)
  case Nil
  then show ?case by simp
next
  case (Cons par pars)
  from Cons.prems have ne: "\<forall>par \<in> set pars. \<not> expands par" and np: "\<not> expands par" by auto
  from Cons.IH[OF ne, of "map (\<lambda>d. setitem d (par_name par) (par_value par)) ds"]
  show ?case by (simp add: expand_step_broadcast[OF np])
qed

lemma expected_count_no_expansion: "\<forall>par \<in> set pars. \<not> expands par \<Longrightarrow> expected_count pars = 1"
  by (induction pars) (auto simp: expected_count_def)

lemma expected_count_empty_sequence:
  "par \<in> set pars \<Longrightarrow> expands par \<Longrightarrow> py_len (par_value par) = 0 \<Longrightarrow> expected_count pars = 0"
  by (induction pars) (auto simp: expected_count_def)


section \<open>Lemmas about the console and the job directory\<close>

lemma print_fields [simp]:
  "fs (print s w) = fs w" "stdin (print s w) = stdin w" "stdout (print s w) = stdout w @ [s]"
  by (simp_all add: print_def)

lemma print_sample_fields [simp]:
  "fs (print_sample info ss w) = fs w"
  "stdin (print_sample info ss w) = stdin w"
  "stdout (print_sample info ss w) =
     stdout w @ concat (map (\<lambda>s. [[CHR 0x0A] @ info s @ [CHR 0x0A], replicate 20 CHR ''-'']) ss)"
  by (induction ss arbitrary: w) simp_all

lemma ask_for_bool_lines_question:
  "fst (ask_for_bool_lines q dflt ls) = fst (ask_for_bool_lines q' dflt ls)"
  by (induction ls) (auto simp: Let_def split: prod.splits)

lemma ask_for_bool_lines_prompt:
  "\<exists>tail. snd (snd (ask_for_bool_lines q dflt ls)) = (q @ '' [Default: '' @ str_default dflt @ ''] > '') # tail"
  by (cases ls) (auto simp: Let_def split: prod.splits)

lemma ask_for_bool_lines_result:
  "fst (ask_for_bool_lines q dflt ls) = Inl e \<Longrightarrow> e = RecursionError"
  by (induction ls) (auto simp: Let_def split: prod.splits if_splits)

lemma ask_for_bool_fs [simp]: "fs (snd (ask_for_bool q dflt w)) = fs w"
  by (simp add: ask_for_bool_def split: prod.splits)

lemma ask_for_bool_fs_eq: "ask_for_bool q dflt w = (r, w') \<Longrightarrow> fs w' = fs w"
  using ask_for_bool_fs[of q dflt w] by simp

lemma ask_for_bool_answer:
  "fst (ask_for_bool q dflt w) = fst (ask_for_bool_lines q dflt (stdin w))"
  by (simp add: ask_for_bool_def split: prod.splits)

lemma specification_check_fs [simp]: "fs (snd (specification_check info specs check w)) = fs w"
proof -
  let ?w3 = "print (''Generated '' @ str_nat (length specs) @ '' Specifications'')
               (print_sample info (slice_to specs check) (print (replicate 20 CHR ''-'') w))"
  let ?q = "''Do the first '' @ str_int check @ '' Specifications look correct?''"
  obtain r w4 where a: "ask_for_bool ?q (DStr ''No'') ?w3 = (r, w4)" by (cases "ask_for_bool ?q (DStr ''No'') ?w3")
  have "fs w4 = fs ?w3" using a by (rule ask_for_bool_fs_eq)
  then have "fs w4 = fs w" by simp
  with a show ?thesis
    by (cases r) (simp_all add: specification_check_def Let_def abort_job_creation_def)
qed

lemma specification_check_rejected:
  assumes "fst (ask_for_bool q (DStr ''No'') w) = Inr False"
  shows "fst (specification_check info specs check w) = Some SystemExit"
proof -
  let ?w3 = "print (''Generated '' @ str_nat (length specs) @ '' Specifications'')
               (print_sample info (slice_to specs check) (print (replicate 20 CHR ''-'') w))"
  let ?q = "''Do the first '' @ str_int check @ '' Specifications look correct?''"
  have "fst (ask_for_bool ?q (DStr ''No'') ?w3) = fst (ask_for_bool_lines ?q (DStr ''No'') (stdin w))"
    by (simp add: ask_for_bool_answer)
  also have "\<dots> = fst (ask_for_bool_lines q (DStr ''No'') (stdin w))"
    by (rule ask_for_bool_lines_question)
  also have "\<dots> = Inr False" using assms by (simp add: ask_for_bool_answer)
  finally obtain w4 where "ask_for_bool ?q (DStr ''No'') ?w3 = (Inr False, w4)"
    by (cases "ask_for_bool ?q (DStr ''No'') ?w3") auto
  then show ?thesis
    by (simp add: specification_check_def Let_def abort_job_creation_def)
qed

lemma save_each_append:
  "save_each save (xs @ ys) job_dir f =
     (case save_each save xs job_dir f of
        (Some e, f') \<Rightarrow> (Some e, f')
      | (None, f') \<Rightarrow> save_each save ys job_dir f')"
  by (induction xs arbitrary: f) (auto split: prod.splits option.splits)

lemma slice_to_all: "int (length xs) \<le> c \<Longrightarrow> slice_to xs c = xs"
  by (simp add: slice_to_def)

lemma world_fs_same: "w\<lparr>fs := fs w\<rparr> = w"
  by simp

section \<open>The expansion engine\<close>

text \<open>
  Claim C1. The list \<open>expand_parameters\<close> returns has as many maps as the product
  of the lengths of the sequences of the Parameters that pass the test \<open>expands\<close>.
  A call on copyable values (no generator among them) does return. The empty input
  gives one empty map; an input with no expanding Parameter gives one map; an
  expanding Parameter with an empty sequence makes the product, and the list, empty.
\<close>

theorem expand_parameters_count:
  "(\<forall>ds n'. expand_parameters pars n = Inr (ds, n') \<longrightarrow> length ds = expected_count pars)
   \<and> ((\<forall>par \<in> set pars. copyable (par_value par)) \<longrightarrow>
        (\<exists>ds n'. expand_parameters pars n = Inr (ds, n')))
   \<and> expand_parameters [] n = Inr ([\<lparr>ident = n, items = []\<rparr>], Suc n)
   \<and> ((\<forall>par \<in> set pars. \<not> expands par) \<longrightarrow>
        (\<exists>ds n'. expand_parameters pars n = Inr (ds, n') \<and> length ds = 1))
   \<and> ((\<exists>par \<in> set pars. expands par \<and> py_len (par_value par) = 0) \<longrightarrow> expected_count pars = 0)"
proof (intro conjI allI impI)
  fix ds n' assume "expand_parameters pars n = Inr (ds, n')"
  then show "length ds = expected_count pars"
    using length_expand_loop[of pars "[\<lparr>ident = n, items = []\<rparr>]" "Suc n" ds n']
    by (simp add: expand_parameters_def)
next
  assume "\<forall>par \<in> set pars. copyable (par_value par)"
  then show "\<exists>ds n'. expand_parameters pars n = Inr (ds, n')"
    using expand_loop_succeeds[of "[\<lparr>ident = n, items = []\<rparr>]" pars "Suc n"]
    by (simp add: expand_parameters_def dict_copyable_def)
next
  show "expand_parameters [] n = Inr ([\<lparr>ident = n, items = []\<rparr>], Suc n)"
    by (simp add: expand_parameters_def)
next
  assume "\<forall>par \<in> set pars. \<not> expands par"
  then show "\<exists>ds n'. expand_parameters pars n = Inr (ds, n') \<and> length ds = 1"
    using expand_loop_no_expansion_returns[of pars "[\<lparr>ident = n, items = []\<rparr>]" "Suc n"]
    by (auto simp: expand_parameters_def)
next
  assume "\<exists>par \<in> set pars. expands par \<and> py_len (par_value par) = 0"
  then show "expected_count pars = 0"
    using expected_count_empty_sequence by blast
qed

text \<open>
  The count at work: two sequences of lengths 2 and 3 give 6 maps, four broadcast
  Parameters give one map, and an empty sequence gives none.
\<close>

theorem expand_parameters_count_witness:
  "list_all (\<lambda>par. copyable (par_value par)) c2_parameters
   \<and> length (returned (expand_parameters c2_parameters 2)) = 6
   \<and> expected_count c2_parameters = 6
   \<and> list_all (\<lambda>par. \<not> expands par) fixed_parameters
   \<and> length (returned (expand_parameters fixed_parameters 1)) = 1
   \<and> list_ex (\<lambda>par. expands par \<and> py_len (par_value par) = 0) empty_sequence_parameters
   \<and> expected_count empty_sequence_parameters = 0
   \<and> length (returned (expand_parameters empty_sequence_parameters 2)) = 0"
proof -
  have c: "list_all (\<lambda>par. copyable (par_value par)) c2_parameters" by code_simp
  then have "\<forall>par \<in> set c2_parameters. copyable (par_value par)" by (simp add: list_all_iff)
  with expand_parameters_count[of c2_parameters 2] obtain ds n'
    where r: "expand_parameters c2_parameters 2 = Inr (ds, n')" by blast
  with expand_parameters_count[of c2_parameters 2] have "length ds = expected_count c2_parameters"
    by blast
  moreover have e6: "expected_count c2_parameters = 6" by code_simp
  ultimately have l6: "length (returned (expand_parameters c2_parameters 2)) = 6"
    using r by (simp add: returned_def)
  have f: "list_all (\<lambda>par. \<not> expands par) fixed_parameters" by code_simp
  then have "\<forall>par \<in> set fixed_parameters. \<not> expands par" by (simp add: list_all_iff)
  with expand_parameters_count[of fixed_parameters 1] obtain ds1 n1
    where "expand_parameters fixed_parameters 1 = Inr (ds1, n1)" "length ds1 = 1" by blast
  then have l1: "length (returned (expand_parameters fixed_parameters 1)) = 1"
    by (simp add: returned_def)
  have z: "list_ex (\<lambda>par. expands par \<and> py_len (par_value par) = 0) empty_sequence_parameters"
    by code_simp
  then have "\<exists>par \<in> set empty_sequence_parameters. expands par \<and> py_len (par_value par) = 0"
    by (simp add: list_ex_iff)
  with expand_parameters_count[of empty_sequence_parameters 2]
  have e0: "expected_count empty_sequence_parameters = 0" by blast
  have "list_all (\<lambda>par. copyable (par_value par)) empty_sequence_parameters" by code_simp
  then have "\<forall>par \<in> set empty_sequence_parameters. copyable (par_value par)"
    by (simp add: list_all_iff)
  with expand_parameters_count[of empty_sequence_parameters 2] obtain ds0 n0
    where r0: "expand_parameters empty_sequence_parameters 2 = Inr (ds0, n0)" by blast
  with expand_parameters_count[of empty_sequence_parameters 2] e0 have "length ds0 = 0" by metis
  with r0 have l0: "length (returned (expand_parameters empty_sequence_parameters 2)) = 0"
    by (simp add: returned_def)
  from c l6 e6 f l1 z e0 l0 show ?thesis by blast
qed

text \<open>
  The scenario of claim C2 as the code runs it. After \<open>a\<close> there are the maps
  \<open>{a: 1}\<close> and \<open>{a: 2}\<close>; for \<open>c\<close> each of them is copied three times in a row, and
  the values of \<open>c\<close> are then dealt out in a cycle. So \<open>a\<close> reads 1, 1, 1, 2, 2, 2 and
  not 1, 2, 1, 2, 1, 2, and \<open>c\<close> reads 10, 20, 30, 10, 20, 30 and not 10, 10, 20, 20, 30, 30.
\<close>

theorem scenario_order_counterexample:
  "column ''a'' (returned (expand_parameters c2_parameters 2))
     = [Some (PInt 1), Some (PInt 1), Some (PInt 1), Some (PInt 2), Some (PInt 2), Some (PInt 2)]
   \<and> column ''a'' (returned (expand_parameters c2_parameters 2))
     \<noteq> [Some (PInt 1), Some (PInt 2), Some (PInt 1), Some (PInt 2), Some (PInt 1), Some (PInt 2)]
   \<and> column ''c'' (returned (expand_parameters c2_parameters 2))
     \<noteq> [Some (PInt 10), Some (PInt 10), Some (PInt 20), Some (PInt 20), Some (PInt 30), Some (PInt 30)]"
  by code_simp

text \<open>
  Claim C2, amended. For the Parameters \<open>a = [1, 2]\<close> and \<open>c = [10, 20, 30]\<close>, both
  expandable and in that order, \<open>expand_parameters\<close> returns exactly 6 maps; in output
  order the values of \<open>a\<close> are 1, 1, 1, 2, 2, 2 and the values of \<open>c\<close> are
  10, 20, 30, 10, 20, 30: the earlier Parameter varies slower.
\<close>

theorem scenario_order:
  "\<exists>ds n'. expand_parameters c2_parameters n = Inr (ds, n') \<and> length ds = 6
     \<and> column ''a'' ds = map (\<lambda>i. Some (PInt i)) [1, 1, 1, 2, 2, 2]
     \<and> column ''c'' ds = map (\<lambda>i. Some (PInt i)) [10, 20, 30, 10, 20, 30]"
  by (simp add: c2_parameters_def expand_parameters_def expand_step_def deepcopy_dict_def
      setitem_def getitem_def column_def numeral_3_eq_3 numeral_2_eq_2)







section \<open>Names used twice\<close>

text \<open>
  Claim C9. When a name is used by more than one Parameter, every returned map binds
  it to a value of the last Parameter that uses it: to one of the elements of its
  sequence when that Parameter expands, to its value otherwise (up to the identity a
  later deep copy renews).
\<close>

theorem last_write_wins:
  assumes "expand_parameters (pars1 @ par # pars2) n = Inr (ds, n')"
    and "par_name par \<notin> set (map par_name pars2)" and "d \<in> set ds"
  shows "\<exists>v \<in> candidates par. content d (par_name par) = Some (strip v)"
  using assms unfolding expand_parameters_def by (rule expand_loop_last_write)

text \<open>
  The name \<open>a\<close> is first broadcast as 1 and then expanded over 5 and 6: both maps
  bind it to 5 or 6.
\<close>

theorem last_write_wins_witness:
  "length (returned (expand_parameters duplicate_parameters 1)) = 2
   \<and> list_ex (\<lambda>v. content (returned (expand_parameters duplicate_parameters 1) ! 0) ''a'' = Some (strip v))
        [PInt 5, PInt 6]
   \<and> list_ex (\<lambda>v. content (returned (expand_parameters duplicate_parameters 1) ! 1) ''a'' = Some (strip v))
        [PInt 5, PInt 6]"
proof -
  let ?R = "returned (expand_parameters duplicate_parameters 1)"
  let ?p1 = "\<lparr>par_name = ''a'', par_value = PInt 1, par_expandable = False\<rparr>"
  let ?p = "\<lparr>par_name = ''a'', par_value = PList 0 [PInt 5, PInt 6], par_expandable = True\<rparr>"
  let ?p3 = "\<lparr>par_name = ''b'', par_value = PStr ''x'', par_expandable = False\<rparr>"
  have h1: "expand_parameters ([?p1] @ ?p # [?p3]) 1 = Inr (?R, 4)" by code_simp
  have h2: "par_name ?p \<notin> set (map par_name [?p3])" by simp
  have l: "length ?R = 2" by code_simp
  then have m0: "?R ! 0 \<in> set ?R" and m1: "?R ! 1 \<in> set ?R" by simp_all
  have c: "candidates ?p = set [PInt 5, PInt 6]" by (simp add: candidates_def expands_def)
  from last_write_wins[OF h1 h2 m0] c
  have a0: "list_ex (\<lambda>v. content (?R ! 0) ''a'' = Some (strip v)) [PInt 5, PInt 6]"
    by (simp add: list_ex_iff)
  from last_write_wins[OF h1 h2 m1] c
  have a1: "list_ex (\<lambda>v. content (?R ! 1) ''a'' = Some (strip v)) [PInt 5, PInt 6]"
    by (simp add: list_ex_iff)
  from l a0 a1 show ?thesis by blast
qed

section \<open>Saving the Specifications\<close>

text \<open>
  Against claim C5: of five Specifications the third does not serialize. The
  exception leaves \<open>save_specifications\<close> at once: the result is the exception, not a
  report, and the files of the fourth and the fifth are never written.
\<close>

theorem failed_save_counterexample:
  "fst (save_specifications demo_save five_specifications [''job''] (job_world [])) = Some PicklingError
   \<and> files (fs (snd (save_specifications demo_save five_specifications [''job''] (job_world []))))
         [''job'', ''inputs'', ''3.spec''] = None
   \<and> files (fs (snd (save_specifications demo_save five_specifications [''job''] (job_world []))))
         [''job'', ''inputs'', ''4.spec''] = None"
  by code_simp

text \<open>
  Claim C5, amended. \<open>save_specifications\<close> saves the Specifications in order and
  stops at the first one whose \<open>save\<close> raises: the Specifications before it have been
  saved, the exception is the outcome of the call, and no later Specification is
  attempted, whatever follows in the batch.
\<close>

theorem save_specifications_stops_at_first_failure:
  assumes "save_specifications save before job_dir w = (None, w1)"
    and "save failing (job_dir @ [''inputs'']) (fs w1) = (Some e, f2)"
  shows "save_specifications save (before @ failing # after) job_dir w = (Some e, w1\<lparr>fs := f2\<rparr>)"
proof -
  let ?w = "print ''Saving Specifications...'' w"
  from assms(1) have b: "save_each save before job_dir (fs w) = (None, fs w1)"
    and w1: "w1 = ?w\<lparr>fs := fs w1\<rparr>"
    by (auto simp: save_specifications_def Let_def split: prod.splits)
  have "save_each save (before @ failing # after) job_dir (fs w) = (Some e, f2)"
    by (simp add: save_each_append b assms(2))
  then have "save_specifications save (before @ failing # after) job_dir w = (Some e, ?w\<lparr>fs := f2\<rparr>)"
    by (simp add: save_specifications_def Let_def)
  also have "?w\<lparr>fs := f2\<rparr> = w1\<lparr>fs := f2\<rparr>" by (subst w1) simp
  finally show ?thesis .
qed

text \<open>
  With five Specifications of which the third fails, the files of the first two are
  written and the call ends with the exception of the third.
\<close>

theorem save_specifications_stops_at_first_failure_witness:
  "fst (save_specifications demo_save (take 2 five_specifications) [''job''] (job_world [])) = None
   \<and> save_specifications demo_save five_specifications [''job''] (job_world [])
       = (Some PicklingError,
          snd (save_specifications demo_save (take 2 five_specifications) [''job''] (job_world [])))
   \<and> files (fs (snd (save_specifications demo_save five_specifications [''job''] (job_world []))))
         [''job'', ''inputs'', ''0.spec''] = Some ''spec''
   \<and> files (fs (snd (save_specifications demo_save five_specifications [''job''] (job_world []))))
         [''job'', ''inputs'', ''1.spec''] = Some ''spec''"
proof -
  let ?before = "take 2 five_specifications"
  let ?failing = "\<lparr>spec_file_name = ''2'', spec_picklable = False\<rparr>"
  let ?after = "drop 3 five_specifications"
  let ?w1 = "snd (save_specifications demo_save ?before [''job''] (job_world []))"
  have n: "fst (save_specifications demo_save ?before [''job''] (job_world [])) = None"
    by code_simp
  then have h1: "save_specifications demo_save ?before [''job''] (job_world []) = (None, ?w1)"
    by (metis prod.collapse)
  have h2: "demo_save ?failing ([''job''] @ [''inputs'']) (fs ?w1) = (Some PicklingError, fs ?w1)"
    by (simp add: demo_save_def)
  have five: "five_specifications = ?before @ ?failing # ?after"
    by (simp add: five_specifications_def)
  from save_specifications_stops_at_first_failure[where save = demo_save and before = ?before
      and job_dir = "[''job'']" and w = "job_world []" and ?w1.0 = ?w1 and e = PicklingError
      and ?f2.0 = "fs ?w1" and failing = ?failing and after = ?after, OF h1 h2]
  have "save_specifications demo_save (?before @ ?failing # ?after) [''job''] (job_world [])
      = (Some PicklingError, ?w1)" by (simp only: world_fs_same)
  then have r: "save_specifications demo_save five_specifications [''job''] (job_world [])
      = (Some PicklingError, ?w1)" by (simp only: five[symmetric])
  have f0: "files (fs ?w1) [''job'', ''inputs'', ''0.spec''] = Some ''spec''" by code_simp
  have f1: "files (fs ?w1) [''job'', ''inputs'', ''1.spec''] = Some ''spec''" by code_simp
  from f0 f1 have "files (fs (snd (Some PicklingError, ?w1))) [''job'', ''inputs'', ''0.spec''] = Some ''spec''"
    "files (fs (snd (Some PicklingError, ?w1))) [''job'', ''inputs'', ''1.spec''] = Some ''spec''"
    by (simp_all only: snd_conv)
  then have "files (fs (snd (save_specifications demo_save five_specifications [''job''] (job_world []))))
         [''job'', ''inputs'', ''0.spec''] = Some ''spec''"
    "files (fs (snd (save_specifications demo_save five_specifications [''job''] (job_world []))))
         [''job'', ''inputs'', ''1.spec''] = Some ''spec''"
    by (simp_all only: r)
  with n r show ?thesis by blast
qed

section \<open>The confirmation gate\<close>

text \<open>
  Claim C6. When the answer to \<open>specification_check\<close> is negative, the script ends
  with \<open>SystemExit\<close> and the filesystem is what it was: no directory is removed or
  made and no file is written, whatever the later steps would have done.
\<close>

theorem rejection_leaves_filesystem_untouched:
  assumes "fst (ask_for_bool q (DStr ''No'') w) = Inr False"
  shows "fst (create_job info save repr dumps submit_check write_submit_file job_info specs parameters job_dir w)
           = Some SystemExit
       \<and> fs (snd (create_job info save repr dumps submit_check write_submit_file job_info specs parameters job_dir w))
           = fs w"
proof -
  obtain r w' where sc: "specification_check info specs 3 w = (r, w')"
    by (cases "specification_check info specs 3 w")
  from specification_check_rejected[OF assms, of info specs 3] sc have r: "r = Some SystemExit" by simp
  from specification_check_fs[of info specs 3 w] sc have "fs w' = fs w" by simp
  with sc r show ?thesis by (simp add: create_job_def and_then_def)
qed

text \<open>
  A rejected run (an invalid answer, then a spaced-out "no") leaves the old file in
  place; the same run accepted removes it and writes the new job.
\<close>

theorem rejection_leaves_filesystem_untouched_witness:
  "fst (ask_for_bool ''Continue?'' (DStr ''No'') (job_world [''maybe'', '' N o ''])) = Inr False
   \<and> fst (demo_create_job two_specifications (job_world [''maybe'', '' N o ''])) = Some SystemExit
   \<and> fs (snd (demo_create_job two_specifications (job_world [''maybe'', '' N o ''])))
       = fs (job_world [''maybe'', '' N o ''])
   \<and> fst (demo_create_job two_specifications (job_world ['' Yes ''])) = None
   \<and> files (fs (job_world ['' Yes ''])) [''job'', ''old.txt''] = Some ''old''
   \<and> files (fs (snd (demo_create_job two_specifications (job_world ['' Yes ''])))) [''job'', ''old.txt'']
       = None
   \<and> files (fs (snd (demo_create_job two_specifications (job_world ['' Yes '']))))
         [''job'', ''inputs'', ''1.spec''] = Some ''spec''"
proof -
  have h: "fst (ask_for_bool ''Continue?'' (DStr ''No'') (job_world [''maybe'', '' N o ''])) = Inr False"
    by code_simp
  from rejection_leaves_filesystem_untouched[OF h]
  have a: "fst (demo_create_job two_specifications (job_world [''maybe'', '' N o ''])) = Some SystemExit"
    and b: "fs (snd (demo_create_job two_specifications (job_world [''maybe'', '' N o ''])))
       = fs (job_world [''maybe'', '' N o ''])"
    unfolding demo_create_job_def by blast+
  have c: "fst (demo_create_job two_specifications (job_world ['' Yes ''])) = None" by code_simp
  have d: "files (fs (job_world ['' Yes ''])) [''job'', ''old.txt''] = Some ''old''" by code_simp
  have e: "files (fs (snd (demo_create_job two_specifications (job_world ['' Yes ''])))) [''job'', ''old.txt'']
       = None" by code_simp
  have f: "files (fs (snd (demo_create_job two_specifications (job_world ['' Yes '']))))
         [''job'', ''inputs'', ''1.spec''] = Some ''spec''" by code_simp
  from h a b c d e f show ?thesis by blast
qed

text \<open>
  Claim C10. With no more Specifications than the sample size (an empty list too),
  \<open>specification_check\<close> shows every Specification, reports their number and asks its
  question; it ends normally, with \<open>SystemExit\<close> on a negative answer, or with the error
  of an input that ran out, and with nothing else.
\<close>

theorem specification_check_short_collection:
  assumes "int (length specs) \<le> check"
  shows "\<exists>r w' asked. specification_check info specs check w = (r, w')
           \<and> stdout w' = stdout w @ [replicate 20 CHR ''-'']
                @ concat (map (\<lambda>s. [[CHR 0x0A] @ info s @ [CHR 0x0A], replicate 20 CHR ''-'']) specs)
                @ [''Generated '' @ str_nat (length specs) @ '' Specifications'']
                @ [''Do the first '' @ str_int check @ '' Specifications look correct?''
                     @ '' [Default: No] > '']
                @ asked
           \<and> (r = None \<or> r = Some SystemExit \<or> r = Some RecursionError)"
proof -
  let ?w3 = "print (''Generated '' @ str_nat (length specs) @ '' Specifications'')
               (print_sample info (slice_to specs check) (print (replicate 20 CHR ''-'') w))"
  let ?q = "''Do the first '' @ str_int check @ '' Specifications look correct?''"
  obtain a rest out where l: "ask_for_bool_lines ?q (DStr ''No'') (stdin ?w3) = (a, rest, out)"
    by (cases "ask_for_bool_lines ?q (DStr ''No'') (stdin ?w3)")
  from ask_for_bool_lines_prompt[of ?q "DStr ''No''" "stdin ?w3"] l
  obtain tail where out: "out = (?q @ '' [Default: No] > '') # tail" by auto
  let ?w4 = "?w3\<lparr>stdin := rest, stdout := stdout ?w3 @ out\<rparr>"
  have ask: "ask_for_bool ?q (DStr ''No'') ?w3 = (a, ?w4)"
    using l by (simp add: ask_for_bool_def)
  have so: "stdout ?w3 = stdout w @ [replicate 20 CHR ''-'']
                @ concat (map (\<lambda>s. [[CHR 0x0A] @ info s @ [CHR 0x0A], replicate 20 CHR ''-'']) specs)
                @ [''Generated '' @ str_nat (length specs) @ '' Specifications'']"
    by (simp add: slice_to_all[OF assms])
  show ?thesis
  proof (cases a)
    case (Inl e)
    from ask_for_bool_lines_result[of ?q "DStr ''No''" "stdin ?w3" e] l Inl have "e = RecursionError"
      by simp
    with Inl ask have "specification_check info specs check w = (Some RecursionError, ?w4)"
      by (simp add: specification_check_def Let_def)
    moreover have "stdout ?w4 = stdout w @ [replicate 20 CHR ''-'']
                @ concat (map (\<lambda>s. [[CHR 0x0A] @ info s @ [CHR 0x0A], replicate 20 CHR ''-'']) specs)
                @ [''Generated '' @ str_nat (length specs) @ '' Specifications'']
                @ [?q @ '' [Default: No] > ''] @ tail"
      using so out by simp
    ultimately show ?thesis
      by (intro exI[of _ "Some RecursionError"] exI[of _ ?w4] exI[of _ tail]) simp
  next
    case (Inr b)
    show ?thesis
    proof (cases b)
      case True
      with Inr ask have "specification_check info specs check w = (None, ?w4)"
        by (simp add: specification_check_def Let_def)
      moreover have "stdout ?w4 = stdout w @ [replicate 20 CHR ''-'']
                @ concat (map (\<lambda>s. [[CHR 0x0A] @ info s @ [CHR 0x0A], replicate 20 CHR ''-'']) specs)
                @ [''Generated '' @ str_nat (length specs) @ '' Specifications'']
                @ [?q @ '' [Default: No] > ''] @ tail"
        using so out by simp
      ultimately show ?thesis
        by (intro exI[of _ None] exI[of _ ?w4] exI[of _ tail]) simp
    next
      case False
      with Inr ask have "specification_check info specs check w
          = (Some SystemExit, print ''Aborting job creation...'' ?w4)"
        by (simp add: specification_check_def Let_def abort_job_creation_def)
      moreover have "stdout (print ''Aborting job creation...'' ?w4) = stdout w @ [replicate 20 CHR ''-'']
                @ concat (map (\<lambda>s. [[CHR 0x0A] @ info s @ [CHR 0x0A], replicate 20 CHR ''-'']) specs)
                @ [''Generated '' @ str_nat (length specs) @ '' Specifications'']
                @ [?q @ '' [Default: No] > ''] @ (tail @ [''Aborting job creation...''])"
        using so out by simp
      ultimately show ?thesis
        by (intro exI[of _ "Some SystemExit"] exI[of _ "print ''Aborting job creation...'' ?w4"]
              exI[of _ "tail @ [''Aborting job creation...'']"]) simp
    qed
  qed
qed

text \<open>
  Two Specifications against a sample size of three are both shown and accepted; an
  empty list is rejected by the answer, not by the sampling.
\<close>

theorem specification_check_short_collection_witness:
  "int (length two_specifications) \<le> 3
   \<and> (\<exists>r w' asked. specification_check demo_info two_specifications 3 (job_world [''y'']) = (r, w')
         \<and> stdout w' = stdout (job_world [''y'']) @ [replicate 20 CHR ''-'']
              @ concat (map (\<lambda>s. [[CHR 0x0A] @ demo_info s @ [CHR 0x0A], replicate 20 CHR ''-''])
                  two_specifications)
              @ [''Generated '' @ str_nat (length two_specifications) @ '' Specifications'']
              @ [''Do the first '' @ str_int 3 @ '' Specifications look correct?''
                   @ '' [Default: No] > '']
              @ asked
         \<and> (r = None \<or> r = Some SystemExit \<or> r = Some RecursionError))
   \<and> fst (specification_check demo_info two_specifications 3 (job_world [''y''])) = None
   \<and> fst (specification_check demo_info [] 3 (job_world [''n''])) = Some SystemExit"
proof -
  have h: "int (length two_specifications) \<le> 3" by (simp add: two_specifications_def)
  have a: "fst (specification_check demo_info two_specifications 3 (job_world [''y''])) = None"
    by code_simp
  have b: "fst (specification_check demo_info [] 3 (job_world [''n''])) = Some SystemExit"
    by code_simp
  from conjI[OF h conjI[OF specification_check_short_collection[OF h, of demo_info "job_world [''y'']"]
      conjI[OF a b]]]
  show ?thesis .
qed

section \<open>The persisted records\<close>





end
